theory Spec2Isabelle
  imports Complex_Main "HOL-Library.Word" "HOL-Library.Option_ord"
begin

unbundle bit_operations_syntax

section \<open>Python values, exceptions and dictionaries\<close>

text \<open>
  The repository is one Python module, \<^verbatim>\<open>blockchain.py\<close>. Python integers are
  unbounded, so hashes, indices, targets, nonces and amounts are \<^typ>\<open>int\<close>. A raised
  exception is a value of \<open>exn\<close>; a method that can raise returns \<open>exn + 'a\<close> with
  \<open>Inl\<close> for the exception.
\<close>

datatype exn = KeyError | TypeError | OverflowError | ZeroDivisionError
  | ValueError | IndexError | ConstraintError

text \<open>
  The objects a satisfier list holds and a constraint script returns. A constraint is any
  Python callable: it returns some object or raises. Python's \<^verbatim>\<open>not x\<close> tests the
  truthiness of \<open>x\<close>, not identity with \<^verbatim>\<open>True\<close>.
\<close>

datatype pyval = PNone | PBool bool | PInt int | PStr string

datatype pyresult = Returns pyval | Raises

fun truthy :: "pyval \<Rightarrow> bool" where
  "truthy PNone = False"
| "truthy (PBool b) = b"
| "truthy (PInt i) = (i \<noteq> 0)"
| "truthy (PStr s) = (s \<noteq> [])"

type_synonym bytes = "8 word list"

section \<open>Output, Input, Transaction\<close>

record Output =
  constraint :: "pyval list \<Rightarrow> pyresult"
  amount :: int

text \<open>\<^verbatim>\<open>Output.__init__\<close>: \<^verbatim>\<open>constraint or (lambda x: True)\<close>, default amount 0
  supplied by the caller.\<close>

definition Output_init :: "(pyval list \<Rightarrow> pyresult) option \<Rightarrow> int \<Rightarrow> Output" where
  "Output_init c a =
     \<lparr>constraint = (case c of None \<Rightarrow> (\<lambda>x. Returns (PBool True)) | Some f \<Rightarrow> f),
      amount = a\<rparr>"

record Input =
  txHash :: int
  txIdx :: int
  satisfier :: "pyval list"

text \<open>\<open>inputs = None\<close> is Python's \<^verbatim>\<open>None\<close> (a mint transaction).\<close>

record Transaction =
  inputs :: "Input list option"
  outputs :: "Output list"
  data :: bytes

text \<open>A UTXO dictionary \<^verbatim>\<open>{(txHash, offset): Output}\<close>.\<close>

type_synonym utxo = "(int \<times> int) \<rightharpoonup> Output"

text \<open>
  \<^verbatim>\<open>getOutput\<close>: \<^verbatim>\<open>self.outputs[n] if n < len(self.outputs) else None\<close>.
  Python list indexing accepts \<open>-len \<le> n < len\<close>, a negative index counting from
  the end, and raises IndexError below \<open>-len\<close>.
\<close>

definition py_index :: "'a list \<Rightarrow> int \<Rightarrow> exn + 'a" where
  "py_index xs n =
     (let len = int (length xs); j = (if n < 0 then len + n else n)
      in if 0 \<le> j \<and> j < len then Inr (xs ! nat j) else Inl IndexError)"

definition getOutput :: "Transaction \<Rightarrow> int \<Rightarrow> exn + Output option" where
  "getOutput t n =
     (if n < int (length (outputs t))
      then (case py_index (outputs t) n of Inl e \<Rightarrow> Inl e | Inr out \<Rightarrow> Inr (Some out))
      else Inr None)"

text \<open>\<^verbatim>\<open>sum(output.amount for output in self.outputs)\<close>.\<close>

definition total_output :: "Transaction \<Rightarrow> int" where
  "total_output t = sum_list (map amount (outputs t))"

text \<open>
  \<^verbatim>\<open>validateMint\<close>: \<^verbatim>\<open>if self.inputs: return False\<close>; \<^verbatim>\<open>None\<close> and the
  empty list are both falsy.
\<close>

definition inputs_truthy :: "Transaction \<Rightarrow> bool" where
  "inputs_truthy t = (case inputs t of None \<Rightarrow> False | Some ins \<Rightarrow> ins \<noteq> [])"

definition validateMint :: "Transaction \<Rightarrow> int \<Rightarrow> bool" where
  "validateMint t maxCoinsToCreate =
     (if inputs_truthy t then False else total_output t \<le> maxCoinsToCreate)"

text \<open>
  \<^verbatim>\<open>Transaction.validate\<close>. The first statement sums
  \<^verbatim>\<open>unspentOutputDict[(input.txHash, input.txIdx)].amount\<close> over the inputs: iterating
  \<^verbatim>\<open>None\<close> raises TypeError and a missing key raises KeyError. Then the totals are
  compared, then each constraint is called on its satisfier; there is no
  \<^verbatim>\<open>try\<close> in the method.
\<close>

fun total_input :: "utxo \<Rightarrow> Input list \<Rightarrow> exn + int" where
  "total_input u [] = Inr 0"
| "total_input u (i # ins) =
     (case u (txHash i, txIdx i) of
        None \<Rightarrow> Inl KeyError
      | Some out \<Rightarrow>
          (case total_input u ins of Inl e \<Rightarrow> Inl e | Inr s \<Rightarrow> Inr (amount out + s)))"

fun check_constraints :: "utxo \<Rightarrow> Input list \<Rightarrow> exn + bool" where
  "check_constraints u [] = Inr True"
| "check_constraints u (i # ins) =
     (case u (txHash i, txIdx i) of
        None \<Rightarrow> Inl KeyError
      | Some out \<Rightarrow>
          (case constraint out (satisfier i) of
             Raises \<Rightarrow> Inl ConstraintError
           | Returns v \<Rightarrow> if \<not> truthy v then Inr False else check_constraints u ins))"

definition Transaction_validate :: "Transaction \<Rightarrow> utxo \<Rightarrow> exn + bool" where
  "Transaction_validate t unspentOutputDict =
     (case inputs t of
        None \<Rightarrow> Inl TypeError
      | Some ins \<Rightarrow>
          (case total_input unspentOutputDict ins of
             Inl e \<Rightarrow> Inl e
           | Inr tin \<Rightarrow>
               if tin < total_output t then Inr False
               else check_constraints unspentOutputDict ins))"

text \<open>
  The constraint script \<^verbatim>\<open>lambda x: x[0]\<close>: it returns the first object of the
  satisfier list and raises IndexError on the empty list.
\<close>

definition first_elem :: "pyval list \<Rightarrow> pyresult" where
  "first_elem x = (case x of [] \<Rightarrow> Raises | v # _ \<Rightarrow> Returns v)"

section \<open>HashableMerkleTree\<close>

text \<open>
  \<^verbatim>\<open>int.to_bytes(h, 32, 'big')\<close> raises OverflowError when \<open>h\<close> is negative or does
  not fit 32 bytes; \<^verbatim>\<open>int.from_bytes(b, 'big')\<close> reads any byte string.
\<close>

definition be32 :: "int \<Rightarrow> bytes" where
  "be32 h = map (\<lambda>k. word_of_int (h div 256 ^ (31 - k))) [0..<32]"

text \<open>The big-endian bytes of \<open>h\<close> at any width \<open>n\<close>; \<open>be32\<close> is \<open>be 32\<close>.\<close>

definition be :: "nat \<Rightarrow> int \<Rightarrow> bytes" where
  "be n h = map (\<lambda>k. word_of_int (h div 256 ^ (n - 1 - k))) [0..<n]"

definition to_bytes32 :: "int \<Rightarrow> exn + bytes" where
  "to_bytes32 h = (if 0 \<le> h \<and> h < 2 ^ 256 then Inr (be32 h) else Inl OverflowError)"

definition from_bytes :: "bytes \<Rightarrow> int" where
  "from_bytes bs = foldl (\<lambda>acc b. acc * 256 + uint b) 0 bs"

text \<open>\<^verbatim>\<open>bytes(32)\<close>.\<close>

definition zero32 :: bytes where
  "zero32 = replicate 32 0"

text \<open>
  \<^verbatim>\<open>[int.to_bytes(h.getHash(), 32, 'big') for h in self.hashableList]\<close>: the
  comprehension stops at the first hash that raises.
\<close>

fun to_nodes :: "int list \<Rightarrow> exn + bytes list" where
  "to_nodes [] = Inr []"
| "to_nodes (h # hs) =
     (case to_bytes32 h of
        Inl e \<Rightarrow> Inl e
      | Inr b \<Rightarrow> (case to_nodes hs of Inl e \<Rightarrow> Inl e | Inr bs \<Rightarrow> Inr (b # bs)))"

text \<open>\<^verbatim>\<open>range(0, n, 2)\<close>.\<close>

definition range2 :: "nat \<Rightarrow> nat list" where
  "range2 n = map (\<lambda>k. 2 * k) [0..<(n + 1) div 2]"

text \<open>
  One pass of the \<^verbatim>\<open>while\<close> body:
  \<^verbatim>\<open>[sha256(nodes[i] + nodes[i + 1]).digest() for i in range(0, len(nodes), 2)]\<close>.
  The body runs it on a list of even length, where \<open>i + 1\<close> is in range
  (\<open>range2_in_range\<close> below), so the IndexError of an out-of-range read cannot occur.
\<close>

definition merkle_level :: "(bytes \<Rightarrow> bytes) \<Rightarrow> bytes list \<Rightarrow> bytes list" where
  "merkle_level sha256 nodes =
     map (\<lambda>i. sha256 (nodes ! i @ nodes ! (i + 1))) (range2 (length nodes))"

definition pad_odd :: "bytes list \<Rightarrow> bytes list" where
  "pad_odd nodes = (if length nodes mod 2 = 1 then nodes @ [zero32] else nodes)"

lemma length_merkle_level: "length (merkle_level s nodes) = (length nodes + 1) div 2"
  by (simp add: merkle_level_def range2_def)

lemma merkle_level_shrinks:
  "1 < length nodes \<Longrightarrow> length (merkle_level s (pad_odd nodes)) < length nodes"
  unfolding length_merkle_level pad_odd_def by (cases "length nodes mod 2 = 1") (simp; arith)+

function merkle_loop :: "(bytes \<Rightarrow> bytes) \<Rightarrow> bytes list \<Rightarrow> bytes list" where
  "merkle_loop sha256 nodes =
     (if length nodes > 1 then merkle_loop sha256 (merkle_level sha256 (pad_odd nodes))
      else nodes)"
  by pat_completeness auto
termination
  by (relation "measure (\<lambda>(s, nodes). length nodes)") (simp_all add: merkle_level_shrinks)

text \<open>
  \<^verbatim>\<open>calcMerkleRoot\<close>. The items are any objects with a \<^verbatim>\<open>getHash\<close> method, so
  the method is an argument. After the loop the list has one element and
  \<^verbatim>\<open>nodes[0]\<close> is read.
\<close>

definition calcMerkleRoot :: "(bytes \<Rightarrow> bytes) \<Rightarrow> ('a \<Rightarrow> int) \<Rightarrow> 'a list \<Rightarrow> exn + int" where
  "calcMerkleRoot sha256 getHash hashableList =
     (if hashableList = [] then Inr 0
      else if length hashableList = 1 then Inr (getHash (hashableList ! 0))
      else (case to_nodes (map getHash hashableList) of
              Inl e \<Rightarrow> Inl e
            | Inr nodes \<Rightarrow>
                (case merkle_loop sha256 nodes of
                   [] \<Rightarrow> Inl IndexError
                 | node # _ \<Rightarrow> Inr (from_bytes node))))"

subsection \<open>The merkle root as the specification words it\<close>

text \<open>
  Each hash becomes a 32-byte big-endian buffer; per level, an odd count gets one
  all-zero 32-byte buffer appended, then adjacent buffers are paired left to right and
  each pair \<open>(L, R)\<close> is replaced by \<open>sha256 (L || R)\<close>; this repeats until one buffer
  remains, which is read back as a big-endian integer.
\<close>

fun spec_pairs :: "(bytes \<Rightarrow> bytes) \<Rightarrow> bytes list \<Rightarrow> bytes list" where
  "spec_pairs sha256 (L # R # rest) = sha256 (L @ R) # spec_pairs sha256 rest"
| "spec_pairs sha256 [L] = [sha256 (L @ zero32)]"
| "spec_pairs sha256 [] = []"

lemma length_spec_pairs: "length (spec_pairs s xs) = (length xs + 1) div 2"
  by (induction s xs rule: spec_pairs.induct) auto

function spec_reduce :: "(bytes \<Rightarrow> bytes) \<Rightarrow> bytes list \<Rightarrow> bytes" where
  "spec_reduce sha256 [] = []"
| "spec_reduce sha256 [b] = b"
| "spec_reduce sha256 (L # R # rest) = spec_reduce sha256 (spec_pairs sha256 (L # R # rest))"
  by pat_completeness auto
termination
  by (relation "measure (\<lambda>(s, nodes). length nodes)") (auto simp: length_spec_pairs)

definition spec_merkle_root :: "(bytes \<Rightarrow> bytes) \<Rightarrow> int list \<Rightarrow> int" where
  "spec_merkle_root sha256 hashes =
     (case hashes of
        [] \<Rightarrow> 0
      | [h] \<Rightarrow> h
      | _ \<Rightarrow> from_bytes (spec_reduce sha256 (map be32 hashes)))"

text \<open>
  A stand-in digest on which the definitions can be evaluated: 31 zero bytes, then 7 plus
  the sum of the input's bytes (modulo 256).
\<close>

definition sum_digest :: "bytes \<Rightarrow> bytes" where
  "sum_digest bs = replicate 31 0 @ [foldl (+) 7 bs]"

section \<open>Hashing, BlockContents, Block\<close>

text \<open>
  SHA-256 and the \<^verbatim>\<open>dill\<close> serializer are libraries outside the repository; they are
  parameters of the model. \<open>dumps_tx\<close> is \<^verbatim>\<open>serializer.dumps(self)\<close> on a Transaction,
  \<open>dumps_header\<close> is \<^verbatim>\<open>serializer.dumps((priorHash, merkleRoot, nonce))\<close>.
\<close>

record hashing =
  sha256 :: "bytes \<Rightarrow> bytes"
  dumps_tx :: "Transaction \<Rightarrow> bytes"
  dumps_header :: "int \<times> int \<times> int \<Rightarrow> bytes"

definition Transaction_getHash :: "hashing \<Rightarrow> Transaction \<Rightarrow> int" where
  "Transaction_getHash H t = from_bytes (sha256 H (dumps_tx H t))"

text \<open>
  \<open>contents_data\<close> is the \<^verbatim>\<open>hashableList\<close> of the HashableMerkleTree held in
  \<^verbatim>\<open>BlockContents.data\<close>. \<^verbatim>\<open>setData\<close> on a list rebinds both attributes of the
  contents object.
\<close>

record BlockContents =
  contents_data :: "Transaction list"
  contents_transactions :: "Transaction list"

definition BlockContents_init :: BlockContents where
  "BlockContents_init = \<lparr>contents_data = [], contents_transactions = []\<rparr>"


text \<open>
  \<^verbatim>\<open>Block.__init__\<close> binds \<^verbatim>\<open>self.transactions\<close> to the list that
  \<^verbatim>\<open>self.contents.transactions\<close> holds at that moment. \<^verbatim>\<open>setContents\<close> rebinds the
  attribute of the contents object only, so \<open>transactions\<close> is a field of its own:
  \<^verbatim>\<open>getHash\<close> reads the contents, \<^verbatim>\<open>validate\<close> reads \<^verbatim>\<open>self.transactions\<close>.
\<close>

record Block =
  contents :: BlockContents
  priorHash :: int
  target :: int
  nonce :: int
  transactions :: "Transaction list"

definition Block_init :: Block where
  "Block_init = \<lparr>contents = BlockContents_init, priorHash = 0, target = 0, nonce = 0,
     transactions = contents_transactions BlockContents_init\<rparr>"


definition Block_getHash :: "hashing \<Rightarrow> Block \<Rightarrow> exn + int" where
  "Block_getHash H b =
     (case calcMerkleRoot (sha256 H) (Transaction_getHash H) (contents_data (contents b)) of
        Inl e \<Rightarrow> Inl e
      | Inr merkleRoot \<Rightarrow>
          Inr (from_bytes (sha256 H (dumps_header H (priorHash b, merkleRoot, nonce b)))))"

text \<open>
  \<^verbatim>\<open>mine\<close>: \<^verbatim>\<open>self.target = tgt\<close>, then
  \<^verbatim>\<open>while self.getHash() >= self.target: self.nonce += 1\<close>. The search is unbounded:
  \<open>None\<close> is the loop that never ends.
\<close>

partial_function (option) mine_loop :: "hashing \<Rightarrow> Block \<Rightarrow> (exn + Block) option" where
  "mine_loop H b =
     (case Block_getHash H b of
        Inl e \<Rightarrow> Some (Inl e)
      | Inr h \<Rightarrow> if h \<ge> target b then mine_loop H (b\<lparr>nonce := nonce b + 1\<rparr>) else Some (Inr b))"

definition mine :: "hashing \<Rightarrow> Block \<Rightarrow> int \<Rightarrow> (exn + Block) option" where
  "mine H b tgt = mine_loop H (b\<lparr>target := tgt\<rparr>)"

text \<open>
  \<^verbatim>\<open>for idx, output in enumerate(tx.outputs): new_utxo[(tx.getHash(), idx)] = output\<close>
\<close>

fun add_outputs :: "int \<Rightarrow> int \<Rightarrow> Output list \<Rightarrow> utxo \<Rightarrow> utxo" where
  "add_outputs h idx [] u = u"
| "add_outputs h idx (out # outs) u = add_outputs h (idx + 1) outs (u((h, idx) \<mapsto> out))"

text \<open>
  \<^verbatim>\<open>for input in tx.inputs:\<close> delete the key when it is in the dictionary, otherwise
  \<^verbatim>\<open>return None\<close> (here \<open>None\<close>).
\<close>

fun remove_inputs :: "Input list \<Rightarrow> utxo \<Rightarrow> utxo option" where
  "remove_inputs [] u = Some u"
| "remove_inputs (i # ins) u =
     (if u (txHash i, txIdx i) \<noteq> None
      then remove_inputs ins (u((txHash i, txIdx i) := None))
      else None)"

text \<open>
  The loop \<^verbatim>\<open>for tx in self.transactions[1:]\<close> of \<^verbatim>\<open>Block.validate\<close>: validate
  against the accumulating dictionary, add the outputs, remove the inputs.
  \<open>Inr None\<close> is \<^verbatim>\<open>return None\<close>.
\<close>

fun validate_txs :: "hashing \<Rightarrow> Transaction list \<Rightarrow> utxo \<Rightarrow> exn + utxo option" where
  "validate_txs H [] new_utxo = Inr (Some new_utxo)"
| "validate_txs H (tx # txs) new_utxo =
     (case Transaction_validate tx new_utxo of
        Inl e \<Rightarrow> Inl e
      | Inr ok \<Rightarrow>
          if \<not> ok then Inr None
          else (case inputs tx of
                  None \<Rightarrow> Inl TypeError
                | Some ins \<Rightarrow>
                    (case remove_inputs ins
                            (add_outputs (Transaction_getHash H tx) 0 (outputs tx) new_utxo) of
                       None \<Rightarrow> Inr None
                     | Some u \<Rightarrow> validate_txs H txs u)))"

text \<open>
  \<^verbatim>\<open>Block.validate(unspentOutputs, maxMint)\<close>. The dictionary is passed by value here,
  which is what \<^verbatim>\<open>unspentOutputs.copy()\<close> amounts to when nothing else writes to the
  argument; the model with an explicit store of dictionary objects is
  \<open>Block_validate_st\<close> below.
\<close>

definition Block_validate :: "hashing \<Rightarrow> Block \<Rightarrow> utxo \<Rightarrow> int \<Rightarrow> exn + utxo option" where
  "Block_validate H b unspentOutputs maxMint =
     (case Block_getHash H b of
        Inl e \<Rightarrow> Inl e
      | Inr h \<Rightarrow>
          if h \<ge> target b then Inr None
          else (case transactions b of
                  [] \<Rightarrow> Inr (Some unspentOutputs)
                | coinbase # rest \<Rightarrow>
                    if \<not> validateMint coinbase maxMint then Inr None
                    else validate_txs H rest unspentOutputs))"

subsection \<open>Block.validate on a store of dictionary objects\<close>

text \<open>
  Python passes the dictionary by reference. The store is the list of all dictionary
  objects, a reference is an index into it; \<^verbatim>\<open>d.copy()\<close> allocates a new object,
  \<^verbatim>\<open>d[k] = v\<close> and \<^verbatim>\<open>del d[k]\<close> write to the object referenced.
\<close>

type_synonym ref = nat
type_synonym store = "utxo list"

definition dict_copy :: "ref \<Rightarrow> store \<Rightarrow> ref \<times> store" where
  "dict_copy r st = (length st, st @ [st ! r])"

definition dict_set :: "ref \<Rightarrow> int \<times> int \<Rightarrow> Output \<Rightarrow> store \<Rightarrow> store" where
  "dict_set r k v st = st[r := (st ! r)(k \<mapsto> v)]"

definition dict_del :: "ref \<Rightarrow> int \<times> int \<Rightarrow> store \<Rightarrow> store" where
  "dict_del r k st = st[r := (st ! r)(k := None)]"

text \<open>\<^verbatim>\<open>Transaction.validate\<close> only subscripts its argument; it has no assignment to it.\<close>

definition Transaction_validate_st :: "Transaction \<Rightarrow> ref \<Rightarrow> store \<Rightarrow> (exn + bool) \<times> store" where
  "Transaction_validate_st t r st = (Transaction_validate t (st ! r), st)"

fun add_outputs_st :: "int \<Rightarrow> int \<Rightarrow> Output list \<Rightarrow> ref \<Rightarrow> store \<Rightarrow> store" where
  "add_outputs_st h idx [] r st = st"
| "add_outputs_st h idx (out # outs) r st =
     add_outputs_st h (idx + 1) outs r (dict_set r (h, idx) out st)"

fun remove_inputs_st :: "Input list \<Rightarrow> ref \<Rightarrow> store \<Rightarrow> bool \<times> store" where
  "remove_inputs_st [] r st = (True, st)"
| "remove_inputs_st (i # ins) r st =
     (if (st ! r) (txHash i, txIdx i) \<noteq> None
      then remove_inputs_st ins r (dict_del r (txHash i, txIdx i) st)
      else (False, st))"

fun validate_txs_st ::
  "hashing \<Rightarrow> Transaction list \<Rightarrow> ref \<Rightarrow> store \<Rightarrow> (exn + bool) \<times> store" where
  "validate_txs_st H [] new_utxo st = (Inr True, st)"
| "validate_txs_st H (tx # txs) new_utxo st =
     (case Transaction_validate_st tx new_utxo st of
        (Inl e, st1) \<Rightarrow> (Inl e, st1)
      | (Inr ok, st1) \<Rightarrow>
          if \<not> ok then (Inr False, st1)
          else (case inputs tx of
                  None \<Rightarrow>
                    (Inl TypeError,
                     add_outputs_st (Transaction_getHash H tx) 0 (outputs tx) new_utxo st1)
                | Some ins \<Rightarrow>
                    (case remove_inputs_st ins new_utxo
                            (add_outputs_st (Transaction_getHash H tx) 0 (outputs tx) new_utxo st1) of
                       (False, st2) \<Rightarrow> (Inr False, st2)
                     | (True, st2) \<Rightarrow> validate_txs_st H txs new_utxo st2)))"

definition Block_validate_st ::
  "hashing \<Rightarrow> Block \<Rightarrow> ref \<Rightarrow> int \<Rightarrow> store \<Rightarrow> (exn + ref option) \<times> store" where
  "Block_validate_st H b unspentOutputs maxMint st =
     (case Block_getHash H b of
        Inl e \<Rightarrow> (Inl e, st)
      | Inr h \<Rightarrow>
          if h \<ge> target b then (Inr None, st)
          else (case dict_copy unspentOutputs st of
                  (new_utxo, st1) \<Rightarrow>
                    (case transactions b of
                       [] \<Rightarrow> (Inr (Some new_utxo), st1)
                     | coinbase # rest \<Rightarrow>
                         if \<not> validateMint coinbase maxMint then (Inr None, st1)
                         else (case validate_txs_st H rest new_utxo st1 of
                                 (Inl e, st2) \<Rightarrow> (Inl e, st2)
                               | (Inr ok, st2) \<Rightarrow>
                                   (if ok then Inr (Some new_utxo) else Inr None, st2)))))"

text \<open>
  A stand-in for the libraries, for evaluation: the digest \<open>sum_digest\<close>, a transaction
  serialized as the low bytes of its output amounts, a header as the low bytes of its
  three fields.
\<close>

definition H0 :: hashing where
  "H0 = \<lparr>sha256 = sum_digest,
          dumps_tx = (\<lambda>t. map (\<lambda>out. word_of_int (amount out)) (outputs t)),
          dumps_header = (\<lambda>(p, r, n). [word_of_int p, word_of_int r, word_of_int n])\<rparr>"

text \<open>
  Concrete objects for evaluation: a coinbase creating 50 coins; a transaction with an
  empty input list and one output of amount 0 (it passes \<^verbatim>\<open>Transaction.validate\<close> on
  any dictionary); and blocks holding them, with the transaction list assigned to
  \<^verbatim>\<open>block.transactions\<close> as well as to the contents.
\<close>

definition cb50 :: Transaction where
  "cb50 = \<lparr>inputs = None, outputs = [Output_init None 50], data = []\<rparr>"

definition spend0 :: Transaction where
  "spend0 = \<lparr>inputs = Some [], outputs = [Output_init None 0], data = []\<rparr>"

definition block_of :: "int \<Rightarrow> int \<Rightarrow> int \<Rightarrow> Transaction list \<Rightarrow> Block" where
  "block_of prior tgt n txs =
     \<lparr>contents = \<lparr>contents_data = txs, contents_transactions = txs\<rparr>,
      priorHash = prior, target = tgt, nonce = n, transactions = txs\<rparr>"

text \<open>\<open>frame r st st'\<close>: the store \<open>st'\<close> differs from \<open>st\<close> at most in the object \<open>r\<close>.\<close>

definition frame :: "ref \<Rightarrow> store \<Rightarrow> store \<Rightarrow> bool" where
  "frame r st st' \<longleftrightarrow> length st' = length st \<and> (\<forall>a. a \<noteq> r \<longrightarrow> st' ! a = st ! a)"

section \<open>Blockchain\<close>

text \<open>
  A Python \<^verbatim>\<open>dict\<close> iterates in insertion order, and \<^verbatim>\<open>getTip\<close> and
  \<^verbatim>\<open>getBlocksAtHeight\<close> iterate the index, so the three maps of the chain are
  association lists: \<open>setitem\<close> is \<^verbatim>\<open>d[k] = v\<close> (an existing key keeps its place, a
  new key goes last) and \<open>map_of\<close> is the lookup.
\<close>

fun setitem :: "'k \<Rightarrow> 'v \<Rightarrow> ('k \<times> 'v) list \<Rightarrow> ('k \<times> 'v) list" where
  "setitem k v [] = [(k, v)]"
| "setitem k v (p # ps) = (if fst p = k then (k, v) # ps else p # setitem k v ps)"

text \<open>
  \<^verbatim>\<open>getWork\<close> is \<^verbatim>\<open>self.genesisTarget / target\<close>, Python's true division of two
  integers: a float, or ZeroDivisionError, or OverflowError when the quotient is too large
  for a float. Cumulative work is a sum of such floats. Floating-point arithmetic is a
  parameter of the model: \<open>true_div\<close> and \<open>fadd\<close> over a linearly ordered type \<open>'w\<close>.
  (A target of an accepted block exceeds a hash, which is non-negative, and so does the
  genesis target; hence every work value is a positive float or \<open>+inf\<close>, never NaN, and
  the floats that occur are linearly ordered.)
\<close>

record 'w arith =
  true_div :: "int \<Rightarrow> int \<Rightarrow> exn + 'w"
  fadd :: "'w \<Rightarrow> 'w \<Rightarrow> 'w"

record 'w Blockchain =
  genesisTarget :: int
  maxMintCoinsPerTx :: int
  blocks :: "(int \<times> Block) list"
  cumulative_work :: "(int \<times> 'w) list"
  utxo_state :: "(int \<times> utxo) list"

definition getWork :: "'w arith \<Rightarrow> 'w Blockchain \<Rightarrow> int \<Rightarrow> exn + 'w" where
  "getWork F s tgt = true_div F (genesisTarget s) tgt"

text \<open>
  \<^verbatim>\<open>Blockchain.__init__\<close>: a fresh block, \<^verbatim>\<open>setTarget\<close>, \<^verbatim>\<open>mine\<close> (which may
  search forever: \<open>None\<close>), then the genesis block and its work are stored under its hash.
  The UTXO-snapshot map stays empty.
\<close>

definition Blockchain_init ::
  "hashing \<Rightarrow> 'w arith \<Rightarrow> int \<Rightarrow> int \<Rightarrow> (exn + 'w Blockchain) option" where
  "Blockchain_init H F genesisTarget' maxMint =
     (case mine H (Block_init\<lparr>target := genesisTarget'\<rparr>) genesisTarget' of
        None \<Rightarrow> None
      | Some (Inl e) \<Rightarrow> Some (Inl e)
      | Some (Inr genesis) \<Rightarrow>
          (case Block_getHash H genesis of
             Inl e \<Rightarrow> Some (Inl e)
           | Inr gh \<Rightarrow>
               (case true_div F genesisTarget' genesisTarget' of
                  Inl e \<Rightarrow> Some (Inl e)
                | Inr w \<Rightarrow>
                    Some (Inr \<lparr>genesisTarget = genesisTarget', maxMintCoinsPerTx = maxMint,
                               blocks = [(gh, genesis)], cumulative_work = [(gh, w)],
                               utxo_state = []\<rparr>))))"





text \<open>
  \<^verbatim>\<open>getBlocksAtHeight\<close>. The inner loop
  \<^verbatim>\<open>while curr_block.priorHash in self.blocks\<close> follows parent hashes and counts the
  hops; it does not end on a cycle of parent hashes (\<open>None\<close>).
\<close>

partial_function (option) walk_back :: "(int \<times> Block) list \<Rightarrow> Block \<Rightarrow> nat \<Rightarrow> nat option" where
  "walk_back bs curr_block curr_height =
     (case map_of bs (priorHash curr_block) of
        None \<Rightarrow> Some curr_height
      | Some parent \<Rightarrow> walk_back bs parent (curr_height + 1))"

fun scan_heights ::
  "(int \<times> Block) list \<Rightarrow> int \<Rightarrow> int list \<Rightarrow> (exn + Block list) option" where
  "scan_heights bs height [] = Some (Inr [])"
| "scan_heights bs height (block_hash # keys) =
     (case map_of bs block_hash of
        None \<Rightarrow> Some (Inl KeyError)
      | Some b \<Rightarrow>
          (case walk_back bs b 0 of
             None \<Rightarrow> None
           | Some curr_height \<Rightarrow>
               (case scan_heights bs height keys of
                  None \<Rightarrow> None
                | Some (Inl e) \<Rightarrow> Some (Inl e)
                | Some (Inr results) \<Rightarrow>
                    Some (Inr (if int curr_height = height then b # results else results)))))"

definition getBlocksAtHeight :: "'w Blockchain \<Rightarrow> int \<Rightarrow> (exn + Block list) option" where
  "getBlocksAtHeight s height = scan_heights (blocks s) height (map fst (blocks s))"

text \<open>
  \<^verbatim>\<open>extend\<close>. The result is the returned value or the exception, with the state the
  chain is left in. The parent's snapshot is read from \<^verbatim>\<open>utxo_state\<close>; when there is
  none the parent is validated against the empty dictionary and the result stored under
  the parent's hash, before the new block is validated. On success the three maps are
  written in the order blocks, cumulative work, snapshots; the right-hand side of the
  cumulative-work assignment is evaluated after the write to \<^verbatim>\<open>self.blocks\<close>.
  (The two \<^verbatim>\<open>print\<close> calls are not modelled.)
\<close>

definition parent_snapshot ::
  "hashing \<Rightarrow> 'w Blockchain \<Rightarrow> Block \<Rightarrow> int \<Rightarrow> (exn + utxo option) \<times> 'w Blockchain" where
  "parent_snapshot H s prior_block ph =
     (case map_of (utxo_state s) ph of
        Some unspent_outputs \<Rightarrow> (Inr (Some unspent_outputs), s)
      | None \<Rightarrow>
          (case Block_validate H prior_block Map.empty (maxMintCoinsPerTx s) of
             Inl e \<Rightarrow> (Inl e, s)
           | Inr None \<Rightarrow> (Inr None, s)
           | Inr (Some unspent_outputs) \<Rightarrow>
               (Inr (Some unspent_outputs),
                s\<lparr>utxo_state := setitem ph unspent_outputs (utxo_state s)\<rparr>)))"

definition record_block ::
  "'w arith \<Rightarrow> 'w Blockchain \<Rightarrow> Block \<Rightarrow> int \<Rightarrow> utxo \<Rightarrow> (exn + bool) \<times> 'w Blockchain" where
  "record_block F s block bh new_utxo_state =
     (let s1 = s\<lparr>blocks := setitem bh block (blocks s)\<rparr> in
      case map_of (cumulative_work s1) (priorHash block) of
        None \<Rightarrow> (Inl KeyError, s1)
      | Some prior_work \<Rightarrow>
          (case getWork F s1 (target block) of
             Inl e \<Rightarrow> (Inl e, s1)
           | Inr w \<Rightarrow>
               (Inr True,
                s1\<lparr>cumulative_work := setitem bh (fadd F prior_work w) (cumulative_work s1),
                   utxo_state := setitem bh new_utxo_state (utxo_state s1)\<rparr>)))"

definition extend ::
  "hashing \<Rightarrow> 'w arith \<Rightarrow> 'w Blockchain \<Rightarrow> Block \<Rightarrow> (exn + bool) \<times> 'w Blockchain" where
  "extend H F s block =
     (case map_of (blocks s) (priorHash block) of
        None \<Rightarrow> (Inr False, s)
      | Some prior_block \<Rightarrow>
          (case Block_getHash H prior_block of
             Inl e \<Rightarrow> (Inl e, s)
           | Inr ph \<Rightarrow>
               (case parent_snapshot H s prior_block ph of
                  (Inl e, s1) \<Rightarrow> (Inl e, s1)
                | (Inr None, s1) \<Rightarrow> (Inr False, s1)
                | (Inr (Some unspent_outputs), s1) \<Rightarrow>
                    (case Block_validate H block unspent_outputs (maxMintCoinsPerTx s1) of
                       Inl e \<Rightarrow> (Inl e, s1)
                     | Inr None \<Rightarrow> (Inr False, s1)
                     | Inr (Some new_utxo_state) \<Rightarrow>
                         (case Block_getHash H block of
                            Inl e \<Rightarrow> (Inl e, s1)
                          | Inr bh \<Rightarrow> record_block F s1 block bh new_utxo_state)))))"


text \<open>
  Height as the specification words it: the number of parent hops from a block back to a
  block whose parent hash is not a key of the index.
\<close>

inductive height_of :: "(int \<times> Block) list \<Rightarrow> Block \<Rightarrow> nat \<Rightarrow> bool" for bs where
  root: "map_of bs (priorHash b) = None \<Longrightarrow> height_of bs b 0"
| hop: "map_of bs (priorHash b) = Some p \<Longrightarrow> height_of bs p n \<Longrightarrow> height_of bs b (Suc n)"

text \<open>Exact rational arithmetic, for evaluation.\<close>

definition F0 :: "rat arith" where
  "F0 = \<lparr>true_div = (\<lambda>a b. if b = 0 then Inl ZeroDivisionError else Inr (of_int a / of_int b)),
          fadd = (+)\<rparr>"

text \<open>
  The chain \<^verbatim>\<open>Blockchain(8, 50)\<close> under the stand-in libraries, as constructed
  (\<open>chain0\<close>), and with the genesis snapshot cached (\<open>chain1\<close>).
\<close>

definition chain0 :: "rat Blockchain" where
  "chain0 = \<lparr>genesisTarget = 8, maxMintCoinsPerTx = 50, blocks = [(7, block_of 0 8 0 [])],
     cumulative_work = [(7, 1)], utxo_state = []\<rparr>"

definition chain1 :: "rat Blockchain" where
  "chain1 = chain0\<lparr>utxo_state := [(7, Map.empty)]\<rparr>"






text \<open>What the parent walk returns, when it returns: the count it started with plus the height.\<close>

definition walked :: "(int \<times> Block) list \<Rightarrow> Block \<Rightarrow> nat \<Rightarrow> nat \<Rightarrow> bool" where
  "walked bs b n m \<longleftrightarrow> (\<exists>h. height_of bs b h \<and> m = n + h)"

text \<open>
  An index with a fork at height 1 (two blocks on the genesis block, one more on the first of
  them), and an index whose only block is stored under its own parent hash.
\<close>

definition blocks3 :: "(int \<times> Block) list" where
  "blocks3 = [(7, block_of 0 8 0 []), (14, block_of 7 15 0 []), (15, block_of 7 16 1 []),
     (21, block_of 14 22 0 [])]"

definition chain3 :: "rat Blockchain" where
  "chain3 = \<lparr>genesisTarget = 8, maxMintCoinsPerTx = 50, blocks = blocks3,
     cumulative_work = [(7, 1), (14, 23 / 15), (15, 3 / 2), (21, 313 / 165)],
     utxo_state = [(7, Map.empty), (14, Map.empty), (15, Map.empty), (21, Map.empty)]\<rparr>"

definition self_parent :: "rat Blockchain" where
  "self_parent = \<lparr>genesisTarget = 8, maxMintCoinsPerTx = 50, blocks = [(0, block_of 0 8 0 [])],
     cumulative_work = [(0, 1)], utxo_state = []\<rparr>"




section \<open>Transaction outputs and minting\<close>

text \<open>
  C10. For \<open>0 \<le> n < len(outputs)\<close>, \<open>getOutput n\<close> is the output at index \<open>n\<close>; for
  \<open>n \<ge> len(outputs)\<close> it is \<^verbatim>\<open>None\<close> and nothing is raised; for
  \<open>-len(outputs) \<le> n < 0\<close> it is the element counted from the end of the list, not
  \<^verbatim>\<open>None\<close>.
\<close>

theorem getOutput_index:
  "(0 \<le> n \<and> n < int (length (outputs t)) \<longrightarrow>
      getOutput t n = Inr (Some (outputs t ! nat n))) \<and>
   (int (length (outputs t)) \<le> n \<longrightarrow> getOutput t n = Inr None) \<and>
   (- int (length (outputs t)) \<le> n \<and> n < 0 \<longrightarrow>
      getOutput t n = Inr (Some (outputs t ! nat (int (length (outputs t)) + n))))"
  by (auto simp: getOutput_def py_index_def Let_def)

theorem getOutput_index_witness:
  "getOutput \<lparr>inputs = None, outputs = [Output_init None 3, Output_init None 4], data = []\<rparr> 1
     = Inr (Some (Output_init None 4)) \<and>
   getOutput \<lparr>inputs = None, outputs = [Output_init None 3, Output_init None 4], data = []\<rparr> 2
     = Inr None \<and>
   getOutput \<lparr>inputs = None, outputs = [Output_init None 3, Output_init None 4], data = []\<rparr> (- 2)
     = Inr (Some (Output_init None 3))"
  using getOutput_index [of 1 "\<lparr>inputs = None, outputs = [Output_init None 3, Output_init None 4], data = []\<rparr>"]
    getOutput_index [of 2 "\<lparr>inputs = None, outputs = [Output_init None 3, Output_init None 4], data = []\<rparr>"]
    getOutput_index [of "- 2" "\<lparr>inputs = None, outputs = [Output_init None 3, Output_init None 4], data = []\<rparr>"]
  by simp

text \<open>
  C5. \<open>validateMint t n\<close> is true exactly when the inputs of \<open>t\<close> are absent or empty
  and its output amounts sum to at most \<open>n\<close>; with absent or empty inputs, outputs
  summing to exactly \<open>n\<close> pass and outputs summing to \<open>n + 1\<close> fail.
\<close>

theorem validateMint_iff:
  "(validateMint t n \<longleftrightarrow>
      (inputs t = None \<or> inputs t = Some []) \<and> sum_list (map amount (outputs t)) \<le> n) \<and>
   ((inputs t = None \<or> inputs t = Some []) \<and> sum_list (map amount (outputs t)) = n
      \<longrightarrow> validateMint t n) \<and>
   (sum_list (map amount (outputs t)) = n + 1 \<longrightarrow> \<not> validateMint t n)"
  by (auto simp: validateMint_def inputs_truthy_def total_output_def split: option.splits)

theorem validateMint_iff_witness:
  "validateMint \<lparr>inputs = None, outputs = [Output_init None 60, Output_init None 40], data = []\<rparr> 100 \<and>
   \<not> validateMint \<lparr>inputs = None, outputs = [Output_init None 60, Output_init None 40], data = []\<rparr> 99"
  using validateMint_iff [of "\<lparr>inputs = None, outputs = [Output_init None 60, Output_init None 40], data = []\<rparr>" 100]
    validateMint_iff [of "\<lparr>inputs = None, outputs = [Output_init None 60, Output_init None 40], data = []\<rparr>" 99]
  by (simp add: Output_init_def)

text \<open>
  C2 (evaluation of the code where it departs from the claim). \<open>Transaction_validate\<close> on a
  transaction whose input references a key absent from the UTXO dictionary raises
  KeyError; on a constraint script that raises, the exception leaves the method; and
  a constraint result that is truthy but not \<^verbatim>\<open>True\<close> (the integer 5) is accepted.
\<close>

theorem Transaction_validate_raises_and_accepts_truthy:
  "Transaction_validate \<lparr>inputs = Some [\<lparr>txHash = 1, txIdx = 0, satisfier = []\<rparr>], outputs = [], data = []\<rparr>
     Map.empty = Inl KeyError \<and>
   Transaction_validate \<lparr>inputs = Some [\<lparr>txHash = 1, txIdx = 0, satisfier = []\<rparr>], outputs = [], data = []\<rparr>
     [(1, 0) \<mapsto> \<lparr>constraint = first_elem, amount = 5\<rparr>] = Inl ConstraintError \<and>
   Transaction_validate \<lparr>inputs = Some [\<lparr>txHash = 1, txIdx = 0, satisfier = [PInt 5]\<rparr>], outputs = [], data = []\<rparr>
     [(1, 0) \<mapsto> \<lparr>constraint = first_elem, amount = 5\<rparr>] = Inr True"
  by (simp add: Transaction_validate_def total_output_def first_elem_def)

section \<open>The merkle root\<close>

text \<open>The big-endian encoding: 32 bytes written and read back give the integer.\<close>

lemma from_bytes_snoc: "from_bytes (bs @ [b]) = from_bytes bs * 256 + uint b"
  by (simp add: from_bytes_def)

lemma be_Suc: "be (Suc n) h = be n (h div 256) @ [word_of_int h]"
proof -
  have "\<And>k. k < n \<Longrightarrow> h div 256 ^ (n - k) = h div 256 div 256 ^ (n - 1 - k)"
  proof -
    fix k assume "k < n"
    then have "n - k = Suc (n - 1 - k)" by simp
    then show "h div 256 ^ (n - k) = h div 256 div 256 ^ (n - 1 - k)"
      by (simp add: zdiv_zmult2_eq)
  qed
  then show ?thesis by (simp add: be_def)
qed

lemma from_bytes_be: "0 \<le> h \<Longrightarrow> from_bytes (be n h) = h mod 256 ^ n"
proof (induction n arbitrary: h)
  case 0
  then show ?case by (simp add: be_def from_bytes_def)
next
  case (Suc n)
  have "0 \<le> h div 256" using Suc.prems by simp
  then have "from_bytes (be n (h div 256)) = (h div 256) mod 256 ^ n" by (rule Suc.IH)
  moreover have "uint (word_of_int h :: 8 word) = h mod 256"
    by (simp add: uint_word_of_int)
  ultimately have "from_bytes (be (Suc n) h) = (h div 256) mod 256 ^ n * 256 + h mod 256"
    by (simp add: be_Suc from_bytes_snoc)
  also have "\<dots> = h mod 256 ^ Suc n"
    by (simp add: zmod_zmult2_eq)
  finally show ?case .
qed

lemma from_bytes_be32: "0 \<le> h \<Longrightarrow> h < 2 ^ 256 \<Longrightarrow> from_bytes (be32 h) = h"
proof -
  assume a: "0 \<le> h" "h < 2 ^ 256"
  have "be32 h = be 32 h" by (simp add: be32_def be_def)
  moreover have "(256::int) ^ 32 = 2 ^ 256" by simp
  ultimately show ?thesis using a from_bytes_be [of h 32] by simp
qed

text \<open>The indexed comprehension of the loop body pairs adjacent buffers.\<close>

lemma upt_0_Suc: "[0..<Suc m] = 0 # map Suc [0..<m]"
  by (simp add: upt_conv_Cons map_Suc_upt del: upt_Suc)

lemma range2_SucSuc: "range2 (Suc (Suc n)) = 0 # map (\<lambda>i. i + 2) (range2 n)"
proof -
  have "(Suc (Suc n) + 1) div 2 = Suc ((n + 1) div 2)" by simp
  then show ?thesis
    unfolding range2_def by (simp only: upt_0_Suc) (simp add: comp_def)
qed

lemma range2_in_range: "even n \<Longrightarrow> i \<in> set (range2 n) \<Longrightarrow> i + 1 < n"
  by (auto simp: range2_def elim!: evenE)

lemma even_length_pad_odd: "even (length (pad_odd nodes))"
  by (simp add: pad_odd_def) presburger

lemma merkle_level_Cons2:
  "merkle_level s (a # b # xs) = s (a @ b) # merkle_level s xs"
  by (simp add: merkle_level_def range2_SucSuc comp_def)

lemma pad_odd_Cons2: "pad_odd (a # b # xs) = a # b # pad_odd xs"
  by (simp add: pad_odd_def)

lemma merkle_level_pad: "merkle_level s (pad_odd nodes) = spec_pairs s nodes"
proof (induction s nodes rule: spec_pairs.induct)
  case (1 s L R rest)
  then show ?case by (simp add: pad_odd_Cons2 merkle_level_Cons2)
next
  case (2 s L)
  then show ?case by (simp add: pad_odd_def merkle_level_def range2_def)
next
  case (3 s)
  then show ?case by (simp add: pad_odd_def merkle_level_def range2_def)
qed

lemma merkle_loop_reduce:
  "nodes \<noteq> [] \<Longrightarrow> merkle_loop s nodes = [spec_reduce s nodes]"
proof (induction s nodes rule: spec_reduce.induct)
  case (1 s)
  then show ?case by simp
next
  case (2 s b)
  then show ?case by simp
next
  case (3 s L R rest)
  have "merkle_loop s (L # R # rest) = merkle_loop s (spec_pairs s (L # R # rest))"
    by (subst merkle_loop.simps) (simp add: merkle_level_pad del: spec_pairs.simps)
  with 3 show ?case by simp
qed

lemma to_nodes_in_range:
  "list_all (\<lambda>h. 0 \<le> h \<and> h < 2 ^ 256) hs \<Longrightarrow> to_nodes hs = Inr (map be32 hs)"
  by (induction hs) (simp_all add: to_bytes32_def)

text \<open>
  C6. \<open>calcMerkleRoot\<close> is 0 on the empty sequence and the item's own hash on a
  one-element sequence; on every sequence of items whose hashes are 256-bit values it is
  the root the specification describes: 32-byte big-endian buffers, an all-zero buffer
  appended per level when the count is odd, adjacent pairs \<open>(L, R)\<close> replaced left to
  right by \<open>sha256 (L || R)\<close> until one buffer remains, read back big-endian, the
  items taken in the order given.
\<close>

theorem calcMerkleRoot_spec:
  "calcMerkleRoot s gh [] = Inr 0 \<and>
   calcMerkleRoot s gh [x] = Inr (gh x) \<and>
   (list_all (\<lambda>y. 0 \<le> gh y \<and> gh y < 2 ^ 256) xs \<longrightarrow>
      calcMerkleRoot s gh xs = Inr (spec_merkle_root s (map gh xs)))"
proof (intro conjI impI)
  show "calcMerkleRoot s gh [] = Inr 0" by (simp add: calcMerkleRoot_def)
  show "calcMerkleRoot s gh [x] = Inr (gh x)" by (simp add: calcMerkleRoot_def)
  assume r: "list_all (\<lambda>y. 0 \<le> gh y \<and> gh y < 2 ^ 256) xs"
  show "calcMerkleRoot s gh xs = Inr (spec_merkle_root s (map gh xs))"
  proof (cases xs)
    case Nil
    then show ?thesis by (simp add: calcMerkleRoot_def spec_merkle_root_def)
  next
    case (Cons a as)
    show ?thesis
    proof (cases as)
      case Nil
      with Cons show ?thesis by (simp add: calcMerkleRoot_def spec_merkle_root_def)
    next
      case (Cons b bs)
      from r have "to_nodes (map gh xs) = Inr (map be32 (map gh xs))"
        by (intro to_nodes_in_range) (simp add: list_all_iff)
      moreover have "merkle_loop s (map be32 (map gh xs)) = [spec_reduce s (map be32 (map gh xs))]"
        using \<open>xs = a # as\<close> by (intro merkle_loop_reduce) simp
      ultimately show ?thesis using \<open>xs = a # as\<close> Cons
        by (simp add: calcMerkleRoot_def spec_merkle_root_def
            del: merkle_loop.simps spec_reduce.simps)
    qed
  qed
qed

theorem calcMerkleRoot_spec_witness:
  "list_all (\<lambda>y. 0 \<le> id y \<and> id y < 2 ^ 256) [1, 2, 3 :: int] \<and>
   calcMerkleRoot sum_digest id [1, 2, 3 :: int] = Inr 27"
proof -
  have r: "list_all (\<lambda>y. 0 \<le> id y \<and> id y < 2 ^ 256) [1, 2, 3 :: int]" by simp
  have s: "spec_merkle_root sum_digest (map id [1, 2, 3 :: int]) = 27" by code_simp
  from r calcMerkleRoot_spec [of sum_digest id 0 "[1, 2, 3]"]
  have "calcMerkleRoot sum_digest id [1, 2, 3 :: int]
          = Inr (spec_merkle_root sum_digest (map id [1, 2, 3]))" by blast
  then show ?thesis using r s by simp
qed

section \<open>Block.validate\<close>

lemma getHash_cb50: "Transaction_getHash H0 cb50 = 57"
  by code_simp

lemma getHash_spend0: "Transaction_getHash H0 spend0 = 7"
  by code_simp

text \<open>The block hash covers the parent hash, the merkle root and the nonce, not the target.\<close>

lemma Block_getHash_target: "Block_getHash H (b\<lparr>target := tgt\<rparr>) = Block_getHash H b"
  by (simp add: Block_getHash_def cong: sum.case_cong)

lemma block_of_target: "block_of p tgt n txs = (block_of p 0 n txs)\<lparr>target := tgt\<rparr>"
  by (simp add: block_of_def)

lemma getHash_block_empty: "Block_getHash H0 (block_of 0 tgt 0 []) = Inr 7"
proof -
  have "Block_getHash H0 (block_of 0 0 0 []) = Inr 7" by code_simp
  then show ?thesis by (subst block_of_target) (simp only: Block_getHash_target)
qed

lemma getHash_block_mint: "Block_getHash H0 (block_of 0 tgt 0 [cb50]) = Inr 64"
proof -
  have "Block_getHash H0 (block_of 0 0 0 [cb50]) = Inr 64" by code_simp
  then show ?thesis by (subst block_of_target) (simp only: Block_getHash_target)
qed

lemma getHash_block_two: "Block_getHash H0 (block_of 0 tgt 0 [cb50, spend0]) = Inr 78"
proof -
  have "Block_getHash H0 (block_of 0 0 0 [cb50, spend0]) = Inr 78" by code_simp
  then show ?thesis by (subst block_of_target) (simp only: Block_getHash_target)
qed

lemma validateMint_cb50: "validateMint cb50 50"
  by (simp add: validateMint_def inputs_truthy_def total_output_def cb50_def Output_init_def)

lemma validate_spend0: "Transaction_validate spend0 u = Inr True"
  by (simp add: Transaction_validate_def total_output_def spend0_def Output_init_def)

text \<open>
  \<open>Block_validate\<close> by cases on the field it reads, \<^verbatim>\<open>self.transactions\<close>: a hash at
  least the target gives \<^verbatim>\<open>None\<close>; below the target an empty field gives the set passed
  in; a non-empty field whose first transaction fails \<open>validateMint\<close> gives
  \<^verbatim>\<open>None\<close>.
\<close>

lemma Block_validate_cases:
  "(Block_getHash H b = Inr h \<and> h \<ge> target b \<longrightarrow> Block_validate H b u m = Inr None) \<and>
   (Block_getHash H b = Inr h \<and> h < target b \<and> transactions b = [] \<longrightarrow>
      Block_validate H b u m = Inr (Some u)) \<and>
   (Block_getHash H b = Inr h \<and> transactions b = t # ts \<and> \<not> validateMint t m \<longrightarrow>
      Block_validate H b u m = Inr None)"
  by (simp add: Block_validate_def)


lemma validate_block_mint:
  "Block_validate H0 (block_of 0 1000 0 [cb50]) Map.empty 50 = Inr (Some Map.empty)"
proof -
  have "transactions (block_of 0 1000 0 [cb50]) = [cb50]"
    and "target (block_of 0 1000 0 [cb50]) = 1000"
    by (simp_all add: block_of_def)
  then show ?thesis
    by (simp add: Block_validate_def getHash_block_mint validateMint_cb50)
qed

lemma validate_block_two:
  "Block_validate H0 (block_of 0 1000 0 [cb50, spend0]) Map.empty 50
     = Inr (Some [(7, 0) \<mapsto> Output_init None 0])"
proof -
  have "transactions (block_of 0 1000 0 [cb50, spend0]) = [cb50, spend0]"
    and "target (block_of 0 1000 0 [cb50, spend0]) = 1000"
    by (simp_all add: block_of_def)
  moreover have "outputs spend0 = [Output_init None 0]" and "inputs spend0 = Some []"
    by (simp_all add: spend0_def)
  ultimately show ?thesis
    by (simp add: Block_validate_def getHash_block_two validateMint_cb50 validate_spend0
        getHash_spend0)
qed

text \<open>
  C1 (evaluation of the code where it departs from the claim). A block whose only
  transaction is a valid coinbase of 50 coins is accepted and the returned UTXO set is
  the one passed in: it has no entry under the coinbase's hash. In an accepted block of
  the coinbase and one further transaction, the further transaction's output is in the
  returned set and the coinbase's is not.
\<close>

theorem Block_validate_drops_coinbase_outputs:
  "validateMint cb50 50 \<and>
   Transaction_getHash H0 cb50 = 57 \<and>
   Transaction_getHash H0 spend0 = 7 \<and>
   Block_validate H0 (block_of 0 1000 0 [cb50]) Map.empty 50 = Inr (Some Map.empty) \<and>
   (case Block_validate H0 (block_of 0 1000 0 [cb50, spend0]) Map.empty 50 of
      Inr (Some u) \<Rightarrow> u (57, 0) = None \<and> map_option amount (u (7, 0)) = Some 0
    | _ \<Rightarrow> False)"
  by (simp add: validate_block_mint validate_block_two validateMint_cb50 getHash_cb50
      getHash_spend0) (simp add: Output_init_def)

section \<open>Validation and the dictionary it is given\<close>

lemma frame_refl: "frame r st st"
  by (simp add: frame_def)

lemma frame_trans: "frame r st st1 \<Longrightarrow> frame r st1 st2 \<Longrightarrow> frame r st st2"
  by (simp add: frame_def)

lemma frame_dict_set: "frame r st (dict_set r k v st)"
  by (simp add: frame_def dict_set_def)

lemma frame_dict_del: "frame r st (dict_del r k st)"
  by (simp add: frame_def dict_del_def)

lemma frame_add_outputs_st: "frame r st (add_outputs_st h idx outs r st)"
proof (induction outs arbitrary: idx st)
  case Nil
  show ?case by (simp add: frame_refl)
next
  case (Cons out outs)
  show ?case by simp (rule frame_trans [OF frame_dict_set Cons])
qed

lemma frame_remove_inputs_st: "frame r st (snd (remove_inputs_st ins r st))"
proof (induction ins arbitrary: st)
  case Nil
  show ?case by (simp add: frame_refl)
next
  case (Cons i ins)
  show ?case
  proof (cases "(st ! r) (txHash i, txIdx i) \<noteq> None")
    case True
    then show ?thesis by simp (rule frame_trans [OF frame_dict_del Cons])
  next
    case False
    then show ?thesis by (simp add: frame_refl)
  qed
qed

lemma validate_txs_st_Cons:
  "validate_txs_st H (tx # txs) r st =
     (case Transaction_validate tx (st ! r) of
        Inl e \<Rightarrow> (Inl e, st)
      | Inr ok \<Rightarrow>
          if \<not> ok then (Inr False, st)
          else (case inputs tx of
                  None \<Rightarrow>
                    (Inl TypeError, add_outputs_st (Transaction_getHash H tx) 0 (outputs tx) r st)
                | Some ins \<Rightarrow>
                    (let p = remove_inputs_st ins r
                               (add_outputs_st (Transaction_getHash H tx) 0 (outputs tx) r st)
                     in if fst p then validate_txs_st H txs r (snd p) else (Inr False, snd p))))"
  by (simp add: Transaction_validate_st_def Let_def
      split: sum.splits option.splits prod.splits bool.splits)

lemma Block_validate_st_unfold:
  "Block_validate_st H b r m st =
     (case Block_getHash H b of
        Inl e \<Rightarrow> (Inl e, st)
      | Inr h \<Rightarrow>
          if h \<ge> target b then (Inr None, st)
          else (case transactions b of
                  [] \<Rightarrow> (Inr (Some (length st)), st @ [st ! r])
                | coinbase # rest \<Rightarrow>
                    if \<not> validateMint coinbase m then (Inr None, st @ [st ! r])
                    else (let p = validate_txs_st H rest (length st) (st @ [st ! r])
                          in (case fst p of
                                Inl e \<Rightarrow> Inl e
                              | Inr ok \<Rightarrow> if ok then Inr (Some (length st)) else Inr None,
                              snd p))))"
  by (simp add: Block_validate_st_def dict_copy_def Let_def
      split: sum.splits list.splits prod.splits)

lemma frame_validate_txs_st: "frame r st (snd (validate_txs_st H txs r st))"
proof (induction txs arbitrary: st)
  case Nil
  show ?case by (simp add: frame_refl)
next
  case (Cons tx txs)
  let ?st1 = "add_outputs_st (Transaction_getHash H tx) 0 (outputs tx) r st"
  have a: "frame r st ?st1" by (rule frame_add_outputs_st)
  have b: "\<And>ins. frame r st (snd (remove_inputs_st ins r ?st1))"
    using a frame_remove_inputs_st by (rule frame_trans)
  have c: "\<And>ins. frame r st (snd (validate_txs_st H txs r (snd (remove_inputs_st ins r ?st1))))"
    using b Cons by (rule frame_trans)
  show ?case using a b c unfolding validate_txs_st_Cons
    by (simp add: frame_refl Let_def split: sum.splits option.splits)
qed

lemma add_outputs_st_eq:
  "r < length st \<Longrightarrow>
   add_outputs_st h idx outs r st = st[r := add_outputs h idx outs (st ! r)]"
  by (induction outs arbitrary: idx st) (simp_all add: dict_set_def)

lemma remove_inputs_st_eq:
  "r < length st \<Longrightarrow>
   fst (remove_inputs_st ins r st) = (remove_inputs ins (st ! r) \<noteq> None) \<and>
   (\<forall>u. remove_inputs ins (st ! r) = Some u \<longrightarrow> snd (remove_inputs_st ins r st) ! r = u)"
  by (induction ins arbitrary: st) (auto simp: dict_del_def)

lemma validate_txs_st_sim:
  "r < length st \<Longrightarrow>
   (case validate_txs H txs (st ! r) of
      Inl e \<Rightarrow> fst (validate_txs_st H txs r st) = Inl e
    | Inr None \<Rightarrow> fst (validate_txs_st H txs r st) = Inr False
    | Inr (Some u) \<Rightarrow>
        fst (validate_txs_st H txs r st) = Inr True \<and> snd (validate_txs_st H txs r st) ! r = u)"
proof (induction txs arbitrary: st)
  case Nil
  then show ?case by simp
next
  case (Cons tx txs)
  let ?st1 = "add_outputs_st (Transaction_getHash H tx) 0 (outputs tx) r st"
  have l1: "length ?st1 = length st" using frame_add_outputs_st by (simp add: frame_def)
  have e1: "?st1 ! r = add_outputs (Transaction_getHash H tx) 0 (outputs tx) (st ! r)"
    using Cons.prems by (simp add: add_outputs_st_eq)
  show ?case
  proof (cases "Transaction_validate tx (st ! r)")
    case (Inl e)
    then show ?thesis by (simp add: validate_txs_st_Cons del: validate_txs_st.simps)
  next
    case (Inr ok)
    show ?thesis
    proof (cases ok)
      case False
      with Inr show ?thesis by (simp add: validate_txs_st_Cons del: validate_txs_st.simps)
    next
      case True
      show ?thesis
      proof (cases "inputs tx")
        case None
        with Inr True show ?thesis by (simp add: validate_txs_st_Cons del: validate_txs_st.simps)
      next
        case (Some ins)
        have r1: "r < length ?st1" using l1 Cons.prems by simp
        note ri = remove_inputs_st_eq [OF r1, of ins]
        show ?thesis
        proof (cases "remove_inputs ins (?st1 ! r)")
          case None
          with ri have "fst (remove_inputs_st ins r ?st1) = False" by simp
          with None Inr True Some e1 show ?thesis
            by (simp add: validate_txs_st_Cons del: validate_txs_st.simps)
        next
          case (Some u)
          let ?st2 = "snd (remove_inputs_st ins r ?st1)"
          from Some ri have f: "fst (remove_inputs_st ins r ?st1) = True" and g: "?st2 ! r = u"
            by simp_all
          have "length ?st2 = length ?st1" using frame_remove_inputs_st by (simp add: frame_def)
          then have r2: "r < length ?st2" using r1 by simp
          from Cons.IH [OF r2] g have ih:
            "(case validate_txs H txs u of
                Inl e \<Rightarrow> fst (validate_txs_st H txs r ?st2) = Inl e
              | Inr None \<Rightarrow> fst (validate_txs_st H txs r ?st2) = Inr False
              | Inr (Some u') \<Rightarrow> fst (validate_txs_st H txs r ?st2) = Inr True \<and>
                  snd (validate_txs_st H txs r ?st2) ! r = u')" by simp
          have step: "validate_txs_st H (tx # txs) r st = validate_txs_st H txs r ?st2"
            using Inr True \<open>inputs tx = Some ins\<close> f
            by (simp add: validate_txs_st_Cons del: validate_txs_st.simps)
          have pstep: "validate_txs H (tx # txs) (st ! r) = validate_txs H txs u"
            using Inr True \<open>inputs tx = Some ins\<close> Some e1 by simp
          show ?thesis unfolding step pstep using ih .
        qed
      qed
    qed
  qed
qed

lemma Block_validate_st_frame:
  "take (length st) (snd (Block_validate_st H b r m st)) = st"
proof -
  let ?st1 = "st @ [st ! r]"
  have "frame (length st) ?st1 (snd (validate_txs_st H txs (length st) ?st1))" for txs
    by (rule frame_validate_txs_st)
  then have "take (length st) (snd (validate_txs_st H txs (length st) ?st1)) = st" for txs
    by (intro nth_equalityI) (auto simp: frame_def nth_append)
  then show ?thesis
    by (simp add: Block_validate_st_unfold Let_def split: sum.splits list.splits)
qed

lemma Block_validate_st_sim:
  "r < length st \<Longrightarrow>
   (case Block_validate H b (st ! r) m of
      Inl e \<Rightarrow> fst (Block_validate_st H b r m st) = Inl e
    | Inr None \<Rightarrow> fst (Block_validate_st H b r m st) = Inr None
    | Inr (Some u) \<Rightarrow>
        fst (Block_validate_st H b r m st) = Inr (Some (length st)) \<and>
        snd (Block_validate_st H b r m st) ! length st = u)"
proof -
  let ?st1 = "st @ [st ! r]"
  have "length st < length ?st1" by simp
  from validate_txs_st_sim [OF this]
  have "(case validate_txs H txs (st ! r) of
      Inl e \<Rightarrow> fst (validate_txs_st H txs (length st) ?st1) = Inl e
    | Inr None \<Rightarrow> fst (validate_txs_st H txs (length st) ?st1) = Inr False
    | Inr (Some u) \<Rightarrow>
        fst (validate_txs_st H txs (length st) ?st1) = Inr True \<and>
        snd (validate_txs_st H txs (length st) ?st1) ! length st = u)" for txs
    by simp
  note key = this
  show ?thesis
  proof (cases "transactions b")
    case Nil
    then show ?thesis
      by (simp add: Block_validate_st_unfold Block_validate_def split: sum.splits)
  next
    case (Cons coinbase rest)
    with key [of rest] show ?thesis
      by (auto simp: Block_validate_st_unfold Block_validate_def Let_def
          split: sum.splits option.splits)
  qed
qed

text \<open>
  C8. \<open>Block_validate_st\<close> leaves every dictionary object of the store as it was, the
  one passed in included: the store before the call is a prefix of the store after it.
  A returned reference is the object allocated by the copy, not the argument.
  \<open>Transaction_validate_st\<close> returns the store it was given.
\<close>

theorem validate_leaves_argument_unchanged:
  "take (length st) (snd (Block_validate_st H b r m st)) = st \<and>
   (r < length st \<longrightarrow> snd (Block_validate_st H b r m st) ! r = st ! r) \<and>
   (\<forall>r'. fst (Block_validate_st H b r m st) = Inr (Some r') \<longrightarrow> r' = length st) \<and>
   snd (Transaction_validate_st t r st) = st"
proof (intro conjI impI allI)
  show p: "take (length st) (snd (Block_validate_st H b r m st)) = st"
    by (rule Block_validate_st_frame)
  show "snd (Block_validate_st H b r m st) ! r = st ! r" if "r < length st"
    using that nth_take [of r "length st" "snd (Block_validate_st H b r m st)"] p by simp
  show "r' = length st" if "fst (Block_validate_st H b r m st) = Inr (Some r')" for r'
    using that
    by (simp add: Block_validate_st_unfold Let_def
        split: sum.splits list.splits if_splits)
  show "snd (Transaction_validate_st t r st) = st"
    by (simp add: Transaction_validate_st_def)
qed

theorem validate_leaves_argument_unchanged_witness:
  "fst (Block_validate_st H0 (block_of 0 1000 0 [cb50, spend0]) 0 50 [Map.empty]) = Inr (Some 1) \<and>
   map_option amount
     ((snd (Block_validate_st H0 (block_of 0 1000 0 [cb50, spend0]) 0 50 [Map.empty]) ! 1) (7, 0))
     = Some 0 \<and>
   snd (Block_validate_st H0 (block_of 0 1000 0 [cb50, spend0]) 0 50 [Map.empty]) ! 0 = Map.empty"
proof -
  have "(0::nat) < length [Map.empty :: utxo]" by simp
  from Block_validate_st_sim [OF this, of H0 "block_of 0 1000 0 [cb50, spend0]" 50]
  have "fst (Block_validate_st H0 (block_of 0 1000 0 [cb50, spend0]) 0 50 [Map.empty])
          = Inr (Some 1)"
    and "snd (Block_validate_st H0 (block_of 0 1000 0 [cb50, spend0]) 0 50 [Map.empty]) ! 1
          = [(7, 0) \<mapsto> Output_init None 0]"
    by (simp_all add: validate_block_two)
  then show ?thesis
    using validate_leaves_argument_unchanged
      [of "[Map.empty]" H0 "block_of 0 1000 0 [cb50, spend0]" 0 50 cb50]
    by (simp add: Output_init_def)
qed

section \<open>A rejected block\<close>

lemma Block_init_block_of: "Block_init\<lparr>target := tgt\<rparr> = block_of 0 tgt 0 []"
  by (simp add: Block_init_def BlockContents_init_def block_of_def)

lemma mine_genesis: "mine H0 (Block_init\<lparr>target := 8\<rparr>) 8 = Some (Inr (block_of 0 8 0 []))"
proof -
  have "target (block_of 0 8 0 []) = 8" by (simp add: block_of_def)
  then have "mine_loop H0 (block_of 0 8 0 []) = Some (Inr (block_of 0 8 0 []))"
    by (subst mine_loop.simps) (simp add: getHash_block_empty)
  moreover have "(block_of 0 8 0 [])\<lparr>target := 8\<rparr> = block_of 0 8 0 []"
    by (simp add: block_of_def)
  ultimately show ?thesis by (simp add: mine_def Block_init_block_of)
qed

lemma init_chain0: "Blockchain_init H0 F0 8 50 = Some (Inr chain0)"
  by (simp add: Blockchain_init_def mine_genesis getHash_block_empty F0_def chain0_def)

lemma getHash_block_child: "Block_getHash H0 (block_of 7 tgt 0 []) = Inr 14"
proof -
  have "Block_getHash H0 (block_of 7 0 0 []) = Inr 14" by code_simp
  then show ?thesis by (subst block_of_target) (simp only: Block_getHash_target)
qed

lemma validate_genesis: "Block_validate H0 (block_of 0 8 0 []) u m = Inr (Some u)"
  by (simp add: Block_validate_def getHash_block_empty) (simp add: block_of_def)

lemma parent_snapshot_frame:
  "blocks (snd (parent_snapshot H s p ph)) = blocks s \<and>
   cumulative_work (snd (parent_snapshot H s p ph)) = cumulative_work s \<and>
   genesisTarget (snd (parent_snapshot H s p ph)) = genesisTarget s \<and>
   maxMintCoinsPerTx (snd (parent_snapshot H s p ph)) = maxMintCoinsPerTx s"
  by (simp add: parent_snapshot_def split: option.splits sum.splits)

lemma parent_snapshot_utxo:
  "utxo_state (snd (parent_snapshot H s p ph)) = utxo_state s \<or>
   (\<exists>u. map_of (utxo_state s) ph = None \<and>
        Block_validate H p Map.empty (maxMintCoinsPerTx s) = Inr (Some u) \<and>
        utxo_state (snd (parent_snapshot H s p ph)) = setitem ph u (utxo_state s))"
  by (simp add: parent_snapshot_def split: option.splits sum.splits)

lemma parent_snapshot_cached:
  "map_of (utxo_state s) ph \<noteq> None \<Longrightarrow> snd (parent_snapshot H s p ph) = s"
  by (auto simp: parent_snapshot_def split: option.splits sum.splits)

lemma extend_False_cases:
  assumes "fst (extend H F s b) = Inr False"
  shows "extend H F s b = (Inr False, s) \<or>
         (\<exists>p ph. map_of (blocks s) (priorHash b) = Some p \<and> Block_getHash H p = Inr ph \<and>
            snd (extend H F s b) = snd (parent_snapshot H s p ph))"
  using assms
  by (auto simp: extend_def record_block_def Let_def
      split: option.splits sum.splits prod.splits if_splits)

text \<open>
  C3, as the code has it. With an unknown parent \<open>extend\<close> returns false and the state
  is the state before. Whenever \<open>extend\<close> returns false, the blocks map, the
  cumulative-work map and the two parameters are as before the call, and the snapshot map
  is as before except that, when the parent had no snapshot and validates against the empty
  dictionary, that snapshot has been stored under the parent's hash. When the parent's
  snapshot was already stored, a false result leaves the whole state as it was.
\<close>

theorem extend_False_frame:
  "(map_of (blocks s) (priorHash b) = None \<longrightarrow> extend H F s b = (Inr False, s)) \<and>
   (fst (extend H F s b) = Inr False \<longrightarrow>
      blocks (snd (extend H F s b)) = blocks s \<and>
      cumulative_work (snd (extend H F s b)) = cumulative_work s \<and>
      genesisTarget (snd (extend H F s b)) = genesisTarget s \<and>
      maxMintCoinsPerTx (snd (extend H F s b)) = maxMintCoinsPerTx s \<and>
      (utxo_state (snd (extend H F s b)) = utxo_state s \<or>
       (\<exists>p ph u. map_of (blocks s) (priorHash b) = Some p \<and> Block_getHash H p = Inr ph \<and>
          map_of (utxo_state s) ph = None \<and>
          Block_validate H p Map.empty (maxMintCoinsPerTx s) = Inr (Some u) \<and>
          utxo_state (snd (extend H F s b)) = setitem ph u (utxo_state s)))) \<and>
   (fst (extend H F s b) = Inr False \<and> map_of (blocks s) (priorHash b) = Some p \<and>
    Block_getHash H p = Inr ph \<and> map_of (utxo_state s) ph \<noteq> None \<longrightarrow>
      snd (extend H F s b) = s)"
proof -
  have A: "extend H F s b = (Inr False, s)" if "map_of (blocks s) (priorHash b) = None"
    using that by (simp add: extend_def)
  have B: "blocks (snd (extend H F s b)) = blocks s \<and>
      cumulative_work (snd (extend H F s b)) = cumulative_work s \<and>
      genesisTarget (snd (extend H F s b)) = genesisTarget s \<and>
      maxMintCoinsPerTx (snd (extend H F s b)) = maxMintCoinsPerTx s \<and>
      (utxo_state (snd (extend H F s b)) = utxo_state s \<or>
       (\<exists>p ph u. map_of (blocks s) (priorHash b) = Some p \<and> Block_getHash H p = Inr ph \<and>
          map_of (utxo_state s) ph = None \<and>
          Block_validate H p Map.empty (maxMintCoinsPerTx s) = Inr (Some u) \<and>
          utxo_state (snd (extend H F s b)) = setitem ph u (utxo_state s)))"
    if f: "fst (extend H F s b) = Inr False"
    using extend_False_cases [OF f]
  proof
    assume "extend H F s b = (Inr False, s)"
    then show ?thesis by simp
  next
    assume "\<exists>p ph. map_of (blocks s) (priorHash b) = Some p \<and> Block_getHash H p = Inr ph \<and>
            snd (extend H F s b) = snd (parent_snapshot H s p ph)"
    then obtain p ph where p: "map_of (blocks s) (priorHash b) = Some p"
      "Block_getHash H p = Inr ph" "snd (extend H F s b) = snd (parent_snapshot H s p ph)"
      by blast
    show ?thesis
      using parent_snapshot_frame [of H s p ph] parent_snapshot_utxo [of H s p ph] p
      by auto
  qed
  have C: "snd (extend H F s b) = s"
    if "fst (extend H F s b) = Inr False" "map_of (blocks s) (priorHash b) = Some p"
      "Block_getHash H p = Inr ph" "map_of (utxo_state s) ph \<noteq> None"
    using that extend_False_cases [of H F s b] parent_snapshot_cached [of s ph H p] by auto
  from A B C show ?thesis by blast
qed

lemma extend_chain0_bad:
  "extend H0 F0 chain0 (block_of 7 0 0 []) = (Inr False, chain0\<lparr>utxo_state := [(7, Map.empty)]\<rparr>)"
proof -
  have "map_of (blocks chain0) (priorHash (block_of 7 0 0 [])) = Some (block_of 0 8 0 [])"
    by (simp add: chain0_def block_of_def)
  moreover have "parent_snapshot H0 chain0 (block_of 0 8 0 []) 7
      = (Inr (Some Map.empty), chain0\<lparr>utxo_state := [(7, Map.empty)]\<rparr>)"
    by (simp add: parent_snapshot_def validate_genesis chain0_def)
  moreover have "Block_validate H0 (block_of 7 0 0 []) u m = Inr None" for u m
    by (simp add: Block_validate_def getHash_block_child) (simp add: block_of_def)
  ultimately show ?thesis
    by (simp add: extend_def getHash_block_empty)
qed

text \<open>
  C3, as stated, fails: on the chain just constructed, a block whose parent is the genesis
  block and whose hash is not below its target is rejected, and the call has stored the
  genesis block's snapshot.
\<close>

theorem extend_False_mutates:
  "Blockchain_init H0 F0 8 50 = Some (Inr chain0) \<and>
   fst (extend H0 F0 chain0 (block_of 7 0 0 [])) = Inr False \<and>
   utxo_state chain0 = [] \<and>
   utxo_state (snd (extend H0 F0 chain0 (block_of 7 0 0 []))) = [(7, Map.empty)] \<and>
   snd (extend H0 F0 chain0 (block_of 7 0 0 [])) \<noteq> chain0"
proof -
  have "utxo_state chain0 = []" by (simp add: chain0_def)
  moreover have "utxo_state (snd (extend H0 F0 chain0 (block_of 7 0 0 []))) = [(7, Map.empty)]"
    by (simp add: extend_chain0_bad)
  ultimately have "snd (extend H0 F0 chain0 (block_of 7 0 0 [])) \<noteq> chain0"
    by (metis list.distinct(1))
  then show ?thesis
    by (simp add: init_chain0 extend_chain0_bad) (simp add: chain0_def)
qed

lemma extend_chain1_bad: "extend H0 F0 chain1 (block_of 7 0 0 []) = (Inr False, chain1)"
proof -
  have "map_of (blocks chain1) (priorHash (block_of 7 0 0 [])) = Some (block_of 0 8 0 [])"
    by (simp add: chain1_def chain0_def block_of_def)
  moreover have "parent_snapshot H0 chain1 (block_of 0 8 0 []) 7 = (Inr (Some Map.empty), chain1)"
    by (simp add: parent_snapshot_def chain1_def)
  moreover have "Block_validate H0 (block_of 7 0 0 []) u m = Inr None" for u m
    by (simp add: Block_validate_def getHash_block_child) (simp add: block_of_def)
  ultimately show ?thesis
    by (simp add: extend_def getHash_block_empty)
qed

theorem extend_False_frame_witness:
  "fst (extend H0 F0 chain0 (block_of 7 0 0 [])) = Inr False \<and>
   blocks (snd (extend H0 F0 chain0 (block_of 7 0 0 []))) = blocks chain0 \<and>
   cumulative_work (snd (extend H0 F0 chain0 (block_of 7 0 0 []))) = cumulative_work chain0 \<and>
   utxo_state (snd (extend H0 F0 chain0 (block_of 7 0 0 [])))
     = setitem 7 Map.empty (utxo_state chain0) \<and>
   map_of (blocks chain0) (priorHash (block_of 9 0 0 [])) = None \<and>
   extend H0 F0 chain0 (block_of 9 0 0 []) = (Inr False, chain0) \<and>
   fst (extend H0 F0 chain1 (block_of 7 0 0 [])) = Inr False \<and>
   map_of (blocks chain1) (priorHash (block_of 7 0 0 [])) = Some (block_of 0 8 0 []) \<and>
   Block_getHash H0 (block_of 0 8 0 []) = Inr 7 \<and>
   map_of (utxo_state chain1) 7 \<noteq> None \<and>
   snd (extend H0 F0 chain1 (block_of 7 0 0 [])) = chain1"
proof -
  have f: "fst (extend H0 F0 chain0 (block_of 7 0 0 [])) = Inr False"
    by (simp add: extend_chain0_bad)
  have n: "map_of (blocks chain0) (priorHash (block_of 9 0 0 [])) = None"
    by (simp add: chain0_def block_of_def)
  have u: "utxo_state (snd (extend H0 F0 chain0 (block_of 7 0 0 [])))
     = setitem 7 Map.empty (utxo_state chain0)"
    by (simp add: extend_chain0_bad) (simp add: chain0_def)
  have f1: "fst (extend H0 F0 chain1 (block_of 7 0 0 [])) = Inr False"
    by (simp add: extend_chain1_bad)
  have p1: "map_of (blocks chain1) (priorHash (block_of 7 0 0 [])) = Some (block_of 0 8 0 [])"
    by (simp add: chain1_def chain0_def block_of_def)
  have c1: "map_of (utxo_state chain1) 7 \<noteq> None"
    by (simp add: chain1_def)
  from f n u f1 p1 c1 show ?thesis
    using extend_False_frame [of chain0 "block_of 7 0 0 []" H0 F0 "block_of 0 8 0 []" 7]
      extend_False_frame [of chain0 "block_of 9 0 0 []" H0 F0 "block_of 0 8 0 []" 7]
      extend_False_frame [of chain1 "block_of 7 0 0 []" H0 F0 "block_of 0 8 0 []" 7]
      getHash_block_empty [of 8]
    by simp
qed

section \<open>The tip and cumulative work\<close>









lemma keys_setitem: "set (map fst (setitem k v xs)) = insert k (set (map fst xs))"
  by (induction xs) auto



































section \<open>Blocks at a height\<close>

lemma walk_back_height: "height_of bs b h \<Longrightarrow> walk_back bs b n = Some (n + h)"
proof (induction arbitrary: n rule: height_of.induct)
  case (root b)
  then show ?case by (subst walk_back.simps) simp
next
  case (hop b p h)
  from hop.IH [of "n + 1"] hop.hyps(1) show ?case by (subst walk_back.simps) simp
qed

lemma walk_back_walked:
  assumes a: "walk_back bs b n = Some m"
  shows "walked bs b n m"
proof (rule walk_back.raw_induct [where P = walked, OF _ a])
  fix loop and bs :: "(int \<times> Block) list" and b :: Block and n m :: nat
  assume IH: "\<And>bs b n m. loop bs b n = Some m \<Longrightarrow> walked bs b n m"
    and eq: "(case map_of bs (priorHash b) of
                None \<Rightarrow> Some n
              | Some parent \<Rightarrow> loop bs parent (n + 1)) = Some m"
  show "walked bs b n m"
  proof (cases "map_of bs (priorHash b)")
    case None
    with eq have "m = n" by simp
    moreover from None have "height_of bs b 0" by (rule height_of.root)
    ultimately show ?thesis by (auto simp: walked_def)
  next
    case (Some p)
    with eq have "loop bs p (n + 1) = Some m" by simp
    then have "walked bs p (n + 1) m" by (rule IH)
    then obtain h where "height_of bs p h" "m = n + 1 + h" by (auto simp: walked_def)
    with Some have "height_of bs b (Suc h)" "m = n + Suc h"
      by (auto intro: height_of.hop)
    then show ?thesis unfolding walked_def by blast
  qed
qed

lemma walk_back_iff: "walk_back bs b 0 = Some h \<longleftrightarrow> height_of bs b h"
  using walk_back_height [of bs b h 0] walk_back_walked [of bs b 0 h]
  by (auto simp: walked_def)

lemma height_of_unique: "height_of bs b h \<Longrightarrow> height_of bs b h' \<Longrightarrow> h = h'"
  using walk_back_height [of bs b h 0] walk_back_height [of bs b h' 0] by simp

lemma scan_heights_spec:
  assumes "list_all (\<lambda>k. \<exists>b n. map_of bs k = Some b \<and> height_of bs b n) keys"
  shows "scan_heights bs (int h) keys
           = Some (Inr (filter (\<lambda>b. height_of bs b h) (map (\<lambda>k. the (map_of bs k)) keys)))"
  using assms
proof (induction keys)
  case Nil
  show ?case by simp
next
  case (Cons k keys)
  from Cons.prems obtain b n where b: "map_of bs k = Some b" "height_of bs b n" by auto
  from b(2) have w: "walk_back bs b 0 = Some n" by (simp add: walk_back_iff)
  from Cons have ih: "scan_heights bs (int h) keys
           = Some (Inr (filter (\<lambda>b. height_of bs b h) (map (\<lambda>k. the (map_of bs k)) keys)))"
    by simp
  have "height_of bs b h \<longleftrightarrow> n = h" using b(2) height_of_unique by blast
  then show ?case by (simp add: b w ih)
qed

lemma map_lookup_distinct:
  "distinct (map fst bs) \<Longrightarrow> map (\<lambda>k. the (map_of bs k)) (map fst bs) = map snd bs"
  by (induction bs) (auto simp: rev_image_eqI)

lemma scan_heights_diverges:
  assumes "k \<in> set keys" "map_of bs k = Some b" "\<not> (\<exists>n. height_of bs b n)"
    and "list_all (\<lambda>k. map_of bs k \<noteq> None) keys"
  shows "scan_heights bs height keys = None"
  using assms
proof (induction keys)
  case Nil
  then show ?case by simp
next
  case (Cons a keys)
  show ?case
  proof (cases "a = k")
    case True
    from Cons.prems(3) have "walk_back bs b 0 = None"
      using walk_back_iff [of bs b] by (cases "walk_back bs b 0") auto
    with True Cons.prems(2) show ?thesis by simp
  next
    case False
    with Cons have "scan_heights bs height keys = None" by simp
    with Cons.prems(4) show ?thesis by (auto split: option.splits)
  qed
qed

text \<open>
  C9. On an index (a dictionary: its keys are distinct) in which the parent walk from every
  block ends, \<open>getBlocksAtHeight h\<close> returns exactly the blocks of the index whose height
  is \<open>h\<close>, in index order, those of every fork included; the height of a block is the
  number of parent hops back to a block whose parent hash is not a key of the index. When
  some block's parent walk does not end (a cycle of parent hashes), the method does not
  return.
\<close>

theorem getBlocksAtHeight_spec:
  assumes "distinct (map fst (blocks s))"
  shows "if list_all (\<lambda>(k, b). \<exists>n. height_of (blocks s) b n) (blocks s)
         then getBlocksAtHeight s (int h)
                = Some (Inr (filter (\<lambda>b. height_of (blocks s) b h) (map snd (blocks s))))
         else getBlocksAtHeight s (int h) = None"
proof (cases "list_all (\<lambda>(k, b). \<exists>n. height_of (blocks s) b n) (blocks s)")
  case True
  then have "list_all (\<lambda>k. \<exists>b n. map_of (blocks s) k = Some b \<and> height_of (blocks s) b n)
          (map fst (blocks s))"
    using assms by (auto simp: list_all_iff)
  from scan_heights_spec [OF this, of h] have
    "getBlocksAtHeight s (int h)
       = Some (Inr (filter (\<lambda>b. height_of (blocks s) b h) (map snd (blocks s))))"
    unfolding getBlocksAtHeight_def map_lookup_distinct [OF assms] .
  with True show ?thesis by simp
next
  case False
  then obtain k b where kb: "(k, b) \<in> set (blocks s)" "\<not> (\<exists>n. height_of (blocks s) b n)"
    by (auto simp: list_all_iff)
  from kb(1) assms have "map_of (blocks s) k = Some b" by simp
  moreover from kb(1) have "k \<in> set (map fst (blocks s))" by force
  moreover have "list_all (\<lambda>k. map_of (blocks s) k \<noteq> None) (map fst (blocks s))"
    by (auto simp: list_all_iff map_of_eq_None_iff)
  ultimately have "scan_heights (blocks s) (int h) (map fst (blocks s)) = None"
    using kb(2) by (intro scan_heights_diverges)
  with False show ?thesis by (simp add: getBlocksAtHeight_def)
qed

lemma heights_blocks3:
  "height_of blocks3 (block_of 0 8 0 []) 0"
  "height_of blocks3 (block_of 7 15 0 []) 1"
  "height_of blocks3 (block_of 7 16 1 []) 1"
  "height_of blocks3 (block_of 14 22 0 []) 2"
proof -
  show g: "height_of blocks3 (block_of 0 8 0 []) 0"
    by (rule height_of.root) (simp add: blocks3_def block_of_def)
  have "height_of blocks3 (block_of 7 15 0 []) (Suc 0)"
    by (rule height_of.hop [OF _ g]) (simp add: blocks3_def block_of_def)
  then show a: "height_of blocks3 (block_of 7 15 0 []) 1" by simp
  have "height_of blocks3 (block_of 7 16 1 []) (Suc 0)"
    by (rule height_of.hop [OF _ g]) (simp add: blocks3_def block_of_def)
  then show "height_of blocks3 (block_of 7 16 1 []) 1" by simp
  have "height_of blocks3 (block_of 14 22 0 []) (Suc 1)"
    by (rule height_of.hop [OF _ a]) (simp add: blocks3_def block_of_def)
  then show "height_of blocks3 (block_of 14 22 0 []) 2" by (simp add: numeral_2_eq_2)
qed

lemma no_height_self_parent: "\<not> height_of [(0, block_of 0 8 0 [])] (block_of 0 8 0 []) n"
proof
  assume h: "height_of [(0, block_of 0 8 0 [])] (block_of 0 8 0 []) n"
  have "walk_back [(0, block_of 0 8 0 [])] (block_of 0 8 0 []) 0
          = walk_back [(0, block_of 0 8 0 [])] (block_of 0 8 0 []) 1"
    by (subst walk_back.simps) (simp add: block_of_def)
  with walk_back_height [OF h, of 0] walk_back_height [OF h, of 1] show False by simp
qed

theorem getBlocksAtHeight_spec_witness:
  "distinct (map fst (blocks chain3)) \<and>
   list_all (\<lambda>(k, b). \<exists>n. height_of (blocks chain3) b n) (blocks chain3) \<and>
   getBlocksAtHeight chain3 1 = Some (Inr [block_of 7 15 0 [], block_of 7 16 1 []]) \<and>
   filter (\<lambda>b. height_of (blocks chain3) b 1) (map snd (blocks chain3))
     = [block_of 7 15 0 [], block_of 7 16 1 []] \<and>
   distinct (map fst (blocks self_parent)) \<and>
   \<not> list_all (\<lambda>(k, b). \<exists>n. height_of (blocks self_parent) b n) (blocks self_parent) \<and>
   getBlocksAtHeight self_parent 0 = None"
proof -
  have b3: "blocks chain3 = blocks3" by (simp add: chain3_def)
  have d: "distinct (map fst (blocks chain3))" by (simp add: b3 blocks3_def)
  have l: "list_all (\<lambda>(k, b). \<exists>n. height_of (blocks chain3) b n) (blocks chain3)"
    unfolding b3 by (subst (2) blocks3_def) (auto intro: heights_blocks3)
  note w = heights_blocks3 [THEN walk_back_height, of 0, simplified]
  have m: "map_of blocks3 7 = Some (block_of 0 8 0 [])"
    "map_of blocks3 14 = Some (block_of 7 15 0 [])"
    "map_of blocks3 15 = Some (block_of 7 16 1 [])"
    "map_of blocks3 21 = Some (block_of 14 22 0 [])"
    by (simp_all add: blocks3_def)
  have "map fst blocks3 = [7, 14, 15, 21]" by (simp add: blocks3_def)
  then have e: "getBlocksAtHeight chain3 1 = Some (Inr [block_of 7 15 0 [], block_of 7 16 1 []])"
    by (simp add: getBlocksAtHeight_def b3 m w)
  have sp: "blocks self_parent = [(0, block_of 0 8 0 [])]" by (simp add: self_parent_def)
  have d': "distinct (map fst (blocks self_parent))" by (simp add: sp)
  have n: "\<not> list_all (\<lambda>(k, b). \<exists>n. height_of (blocks self_parent) b n) (blocks self_parent)"
    by (simp add: sp no_height_self_parent)
  from d l e d' n show ?thesis
    using getBlocksAtHeight_spec [OF d, of 1] getBlocksAtHeight_spec [OF d', of 0]
    by simp
qed

end
